theory Spec2Isabelle
  imports Main "HOL-Library.AList"
begin

section \<open>Values and strings of the host language\<close>

text \<open>
  A spreadsheet cell (\<^verbatim>\<open>unknown\<close> in the source) is one of the values the parser puts
  into a matrix. Strings are lists of 8-bit characters, read as the code units
  U+0000..U+00FF. Numbers are the integer-valued ones that print in plain decimal (and
  bigints). A Date is a valid one and is carried as the two texts the code reads from it:
  what \<^verbatim>\<open>toISOString()\<close> returns and what \<^verbatim>\<open>String()\<close> returns.
\<close>

datatype cell = Null | Undefined | Str string | Num int | Bool bool
  | DateV (date_iso: string) (date_text: string)

type_synonym matrix_t = "cell list list"

text \<open>A \<^verbatim>\<open>Record<string, unknown>\<close>: the properties in insertion order; assigning to a
  key that exists overwrites its value in place. The code that is modelled reads a record
  by key only.\<close>

type_synonym record_t = "(string \<times> cell) list"

definition digit_char :: "nat \<Rightarrow> char" where
  "digit_char d = char_of (48 + d)"

fun string_of_nat :: "nat \<Rightarrow> string" where
  "string_of_nat n =
     (if n < 10 then [digit_char n] else string_of_nat (n div 10) @ [digit_char (n mod 10)])"

declare string_of_nat.simps [simp del]

definition string_of_int :: "int \<Rightarrow> string" where
  "string_of_int i = (if i < 0 then CHR ''-'' # string_of_nat (nat (- i)) else string_of_nat (nat i))"

text \<open>\<^verbatim>\<open>String(value)\<close>.\<close>

fun js_String :: "cell \<Rightarrow> string" where
  "js_String Null = ''null''"
| "js_String Undefined = ''undefined''"
| "js_String (Str t) = t"
| "js_String (Num i) = string_of_int i"
| "js_String (Bool b) = (if b then ''true'' else ''false'')"
| "js_String (DateV i8 txt) = txt"

text \<open>White space of \<^verbatim>\<open>String.prototype.trim\<close> among the code units below 256:
  TAB, LF, VT, FF, CR, SPACE and NBSP.\<close>

definition is_space :: "char \<Rightarrow> bool" where
  "is_space ch = (of_char ch \<in> {9::nat, 10, 11, 12, 13, 32, 160})"

definition trim :: "string \<Rightarrow> string" where
  "trim t = rev (dropWhile is_space (rev (dropWhile is_space t)))"

text \<open>\<^verbatim>\<open>xs.join(sep)\<close> on an array of strings.\<close>

fun join :: "string \<Rightarrow> string list \<Rightarrow> string" where
  "join sep [] = []"
| "join sep [x] = x"
| "join sep (x # y # ys) = x @ sep @ join sep (y # ys)"

text \<open>\<^verbatim>\<open>row[index]\<close>: reading past the end of an array gives \<^verbatim>\<open>undefined\<close>.\<close>

definition at_index :: "cell list \<Rightarrow> nat \<Rightarrow> cell" where
  "at_index row i = (if i < length row then row ! i else Undefined)"

text \<open>\<^verbatim>\<open>value ?? null\<close>.\<close>

fun or_null :: "cell \<Rightarrow> cell" where
  "or_null Undefined = Null"
| "or_null v = v"

section \<open>Data model (selection.ts, excel.ts)\<close>

record SheetSelection =
  range_opt :: "string option"
  firstRowIsHeader :: "bool option"

record WorkbookSelectionConfig =
  sheets_cfg :: "(string \<rightharpoonup> SheetSelection) option"

record ProcessedSheet =
  name :: string
  columns :: "string list"
  rows :: "record_t list"
  csv :: string

record ParsedSheet = ProcessedSheet +
  matrix :: matrix_t

record 's workbook =
  fileName :: string
  sheets :: "'s list"

type_synonym ParsedWorkbook = "ParsedSheet workbook"
type_synonym ProcessedWorkbook = "ProcessedSheet workbook"

text \<open>What \<^verbatim>\<open>utils.decode_range\<close> of the xlsx library returns: the 0-based start and end
  cell of a range.\<close>

datatype cell_address = CellAddress (addr_r: int) (addr_c: int)
datatype range_t = Range (range_s: cell_address) (range_e: cell_address)

text \<open>The library's decoder is a parameter of the functions that call it:
  \<open>None\<close> stands for a call that raises.\<close>

type_synonym decoder = "string \<Rightarrow> range_t option"

section \<open>The selection applier (selection.ts)\<close>

definition FALLBACK_COLUMN_PREFIX :: string where
  "FALLBACK_COLUMN_PREFIX = ''Column''"

definition clamp :: "int \<Rightarrow> int \<Rightarrow> int \<Rightarrow> int" where
  "clamp v mn mx = max mn (min mx v)"

definition fallback_name :: "nat \<Rightarrow> string" where
  "fallback_name index = FALLBACK_COLUMN_PREFIX @ ''_'' @ string_of_nat (index + 1)"

definition buildColumnsFromHeaderRow :: "cell list \<Rightarrow> nat \<Rightarrow> string list" where
  "buildColumnsFromHeaderRow headerRow width =
     map (\<lambda>index.
       let raw = at_index headerRow index;
           v = (case raw of Str t \<Rightarrow> trim t
                | Null \<Rightarrow> []
                | Undefined \<Rightarrow> []
                | _ \<Rightarrow> trim (js_String raw))
       in if length v > 0 then v else fallback_name index) [0..<width]"

definition buildGeneratedColumns :: "nat \<Rightarrow> string list" where
  "buildGeneratedColumns width = map (\<lambda>index. fallback_name index) [0..<width]"

text \<open>\<^verbatim>\<open>matrix[r] ?? []\<close> for a row index that the clamping made non-negative.\<close>

definition row_at :: "matrix_t \<Rightarrow> int \<Rightarrow> cell list" where
  "row_at m i = (if 0 \<le> i \<and> nat i < length m then m ! nat i else [])"

definition cell_at :: "cell list \<Rightarrow> int \<Rightarrow> cell" where
  "cell_at row j = (if 0 \<le> j then or_null (at_index row (nat j)) else Null)"

definition extractRangeMatrix :: "decoder \<Rightarrow> matrix_t \<Rightarrow> string option \<Rightarrow> matrix_t" where
  "extractRangeMatrix dec m rng =
     (case rng of
        None \<Rightarrow> m
      | Some rg \<Rightarrow>
          if rg = [] then m
          else (case dec rg of
                  None \<Rightarrow> m
                | Some decoded \<Rightarrow>
                    let maxRow = (if length m > 0 then int (length m) - 1 else 0);
                        maxCol = foldl (\<lambda>acc row. max acc (int (length row) - 1)) 0 m;
                        startRow = clamp (addr_r (range_s decoded)) 0 maxRow;
                        endRow = clamp (addr_r (range_e decoded)) 0 maxRow;
                        startCol = clamp (addr_c (range_s decoded)) 0 maxCol;
                        endCol = clamp (addr_c (range_e decoded)) 0 maxCol
                    in map (\<lambda>r. let sourceRow = row_at m r
                                 in map (\<lambda>c. cell_at sourceRow c) [startCol..endCol])
                         [startRow..endRow]))"

definition matrixToRows :: "matrix_t \<Rightarrow> string list \<Rightarrow> bool \<Rightarrow> record_t list" where
  "matrixToRows m cols headerIncluded =
     (let dataRows = (if headerIncluded then drop 1 m else m)
      in map (\<lambda>row. foldl (\<lambda>rec (index, col). AList.update col (or_null (at_index row index)) rec)
                        [] (enumerate 0 cols)) dataRows)"

text \<open>\<^verbatim>\<open>row[column]\<close> on a record.\<close>

definition field :: "record_t \<Rightarrow> string \<Rightarrow> cell" where
  "field rec k = (case map_of rec k of None \<Rightarrow> Undefined | Some v \<Rightarrow> v)"

text \<open>The test \<^verbatim>\<open>/[",\n]/\<close> and the replacement of every quote by two.\<close>

definition needs_quotes :: "string \<Rightarrow> bool" where
  "needs_quotes t = (\<exists>ch \<in> set t. ch = CHR 0x22 \<or> ch = CHR '','' \<or> ch = CHR 0x0A)"

definition double_quotes :: "string \<Rightarrow> string" where
  "double_quotes t = concat (map (\<lambda>ch. if ch = CHR 0x22 then [CHR 0x22, CHR 0x22] else [ch]) t)"

text \<open>The body of the inner \<^verbatim>\<open>map\<close> of \<^verbatim>\<open>rowsToCsv\<close>; \<^verbatim>\<open>serialiseValue\<close> of excel.ts has
  the same branches.\<close>

fun serialiseValue :: "cell \<Rightarrow> string" where
  "serialiseValue Null = []"
| "serialiseValue Undefined = []"
| "serialiseValue (Num i) = string_of_int i"
| "serialiseValue (DateV i8 txt) = i8"
| "serialiseValue v =
     (let t = js_String v
      in if needs_quotes t then [CHR 0x22] @ double_quotes t @ [CHR 0x22] else t)"

definition rowsToCsv :: "string list \<Rightarrow> record_t list \<Rightarrow> string" where
  "rowsToCsv cols rws =
     (if length cols = 0 then []
      else let header = join '','' cols;
               lines = map (\<lambda>row. join '','' (map (\<lambda>column. serialiseValue (field row column)) cols)) rws
           in join [CHR 0x0A] (header # lines))"

text \<open>\<^verbatim>\<open>matrix.reduce((max, row) => Math.max(max, row.length), 0)\<close>: the width of
  the widest row (\<^verbatim>\<open>width\<close> in \<^verbatim>\<open>processSheet\<close>, \<^verbatim>\<open>maxCols\<close> in the range selector).\<close>

definition max_row_width :: "matrix_t \<Rightarrow> nat" where
  "max_row_width m = foldl (\<lambda>mx row. max mx (length row)) 0 m"

definition empty_sheet :: "string \<Rightarrow> ProcessedSheet" where
  "empty_sheet n = \<lparr>name = n, columns = [], rows = [], csv = []\<rparr>"

definition processSheet :: "decoder \<Rightarrow> ParsedSheet \<Rightarrow> SheetSelection option \<Rightarrow> ProcessedSheet" where
  "processSheet dec sheet selection =
     (let trimmedRange = (case selection of None \<Rightarrow> None
                          | Some sel \<Rightarrow> map_option trim (range_opt sel));
          targetMatrix = extractRangeMatrix dec (matrix sheet)
                           (case trimmedRange of None \<Rightarrow> None
                            | Some t \<Rightarrow> if t = [] then None else Some t)
      in if length targetMatrix = 0 then empty_sheet (name sheet)
         else
           let headerIncluded = (case selection of None \<Rightarrow> True
                                 | Some sel \<Rightarrow> firstRowIsHeader sel \<noteq> Some False);
               width = max_row_width targetMatrix
           in if width = 0 then empty_sheet (name sheet)
              else
                let headerRow = (case targetMatrix of [] \<Rightarrow> [] | h # _ \<Rightarrow> h);
                    cols = (if headerIncluded then buildColumnsFromHeaderRow headerRow width
                            else buildGeneratedColumns width);
                    rws = matrixToRows targetMatrix cols headerIncluded;
                    text = rowsToCsv cols rws
                in \<lparr>name = name sheet, columns = cols, rows = rws, csv = text\<rparr>)"

definition applySelection :: "decoder \<Rightarrow> ParsedWorkbook \<Rightarrow> WorkbookSelectionConfig \<Rightarrow> ProcessedWorkbook" where
  "applySelection dec wb config =
     (let shs = map (\<lambda>sheet.
                  let selection = (case sheets_cfg config of None \<Rightarrow> None
                                   | Some m \<Rightarrow> m (name sheet))
                  in processSheet dec sheet selection) (sheets wb)
      in \<lparr>fileName = fileName wb, sheets = shs\<rparr>)"

section \<open>The range selector (range-selector.tsx)\<close>

record CellPosition =
  row :: int
  col :: int

record SelectionState =
  start_pos :: "CellPosition option"
  end_pos :: "CellPosition option"

text \<open>The \<^verbatim>\<open>while (c >= 0)\<close> loop of \<^verbatim>\<open>cellToExcelNotation\<close>, which puts one letter in
  front of \<^verbatim>\<open>colName\<close> per round.\<close>

function col_loop :: "int \<Rightarrow> string \<Rightarrow> string" where
  "col_loop c colName =
     (if c \<ge> 0 then col_loop (c div 26 - 1) (char_of (65 + c mod 26) # colName) else colName)"
  by pat_completeness auto
termination
  by (relation "measure (\<lambda>(c, colName). nat (c + 1))") auto

declare col_loop.simps [simp del]

definition cellToExcelNotation :: "int \<Rightarrow> int \<Rightarrow> string" where
  "cellToExcelNotation rw cl = col_loop cl [] @ string_of_int (rw + 1)"

definition selectionToRange :: "SelectionState \<Rightarrow> string" where
  "selectionToRange selection =
     (case (start_pos selection, end_pos selection) of
        (Some st, Some en) \<Rightarrow>
          let startCell = cellToExcelNotation (min (row st) (row en)) (min (col st) (col en));
              endCell = cellToExcelNotation (max (row st) (row en)) (max (col st) (col en))
          in startCell @ '':'' @ endCell
      | _ \<Rightarrow> [])"

definition isCellInSelection :: "int \<Rightarrow> int \<Rightarrow> SelectionState \<Rightarrow> bool" where
  "isCellInSelection rw cl selection =
     (case (start_pos selection, end_pos selection) of
        (Some st, Some en) \<Rightarrow>
          let minRow = min (row st) (row en); maxRow = max (row st) (row en);
              minCol = min (col st) (col en); maxCol = max (col st) (col en)
          in rw \<ge> minRow \<and> rw \<le> maxRow \<and> cl \<ge> minCol \<and> cl \<le> maxCol
      | _ \<Rightarrow> False)"

section \<open>Decoding range notation\<close>

text \<open>
  \<^verbatim>\<open>utils.decode_range\<close> belongs to the xlsx library, whose code is not part of the
  sources. The functions that call it take the decoder as an argument. Two decoders follow:
  \<open>decode_range\<close>, the one the spec describes, which fails on malformed notation, and
  \<open>xlsx_decode_range\<close>, the one the library has, which fails on no string. They agree on
  every string the first one decodes.
\<close>

text \<open>The code unit of a character, the letters \<^verbatim>\<open>A\<close>-\<^verbatim>\<open>Z\<close> and the digits.\<close>

definition charCode :: "char \<Rightarrow> int" where
  "charCode ch = int (of_char ch)"

definition is_upper :: "char \<Rightarrow> bool" where
  "is_upper ch = (65 \<le> charCode ch \<and> charCode ch \<le> 90)"

definition is_digit :: "char \<Rightarrow> bool" where
  "is_digit ch = (48 \<le> charCode ch \<and> charCode ch \<le> 57)"

text \<open>Modelled from the spec: the value of column letters, which the spec gives as
  bijective base 26 with \<^verbatim>\<open>A\<close> = 1 (so that column 0 is A, 25 is Z and 26 is AA).\<close>

definition letters_value :: "string \<Rightarrow> int" where
  "letters_value ls = foldl (\<lambda>d ch. 26 * d + (charCode ch - 64)) 0 ls"

text \<open>Modelled from the spec: the value of a decimal row number.\<close>

definition digits_value :: "string \<Rightarrow> int" where
  "digits_value ds = foldl (\<lambda>d ch. 10 * d + (charCode ch - 48)) 0 ds"

text \<open>Modelled from the spec: the decoder of one cell reference, which the library does not
  expose in the sources. The spec: a cell reference is column letters followed by a
  1-based row number; the decoded address is 0-based. Anything else does not decode.\<close>

definition decode_cell :: "string \<Rightarrow> cell_address option" where
  "decode_cell t =
     (let ls = takeWhile is_upper t; ds = dropWhile is_upper t
      in if ls = [] \<or> ds = [] \<or> \<not> list_all is_digit ds \<or> digits_value ds = 0 then None
         else Some (CellAddress (digits_value ds - 1) (letters_value ls - 1)))"

text \<open>Modelled from the spec: \<^verbatim>\<open>utils.decode_range\<close> of the xlsx library, missing from the
  sources. The spec: range notation is \<^verbatim>\<open><TopLeftCell>:<BottomRightCell>\<close>, and malformed
  notation fails to decode.\<close>

definition decode_range :: decoder where
  "decode_range t =
     (let a = takeWhile (\<lambda>ch. ch \<noteq> CHR '':'') t; b = dropWhile (\<lambda>ch. ch \<noteq> CHR '':'') t
      in case b of
           [] \<Rightarrow> None
         | _ # b' \<Rightarrow> (case (decode_cell a, decode_cell b') of
                        (Some s, Some e) \<Rightarrow> Some (Range s e)
                      | _ \<Rightarrow> None))"

text \<open>
  The library's \<^verbatim>\<open>decode_cell\<close>: one pass over the characters of the reference, starting
  from \<^verbatim>\<open>R = 0, C = 0\<close>. A digit extends the row number, a letter \<^verbatim>\<open>A\<close>-\<^verbatim>\<open>Z\<close> extends the
  column number, and every other character is skipped; the address is
  \<^verbatim>\<open>{c: C - 1, r: R - 1}\<close>. Nothing is checked and nothing is raised.
\<close>

definition xlsx_cell_step :: "int \<times> int \<Rightarrow> char \<Rightarrow> int \<times> int" where
  "xlsx_cell_step acc ch =
     (case acc of (R, C) \<Rightarrow>
        let cc = charCode ch
        in if cc \<ge> 48 \<and> cc \<le> 57 then (10 * R + (cc - 48), C)
           else if cc \<ge> 65 \<and> cc \<le> 90 then (R, 26 * C + (cc - 64))
           else (R, C))"

definition xlsx_decode_cell :: "string \<Rightarrow> cell_address" where
  "xlsx_decode_cell cstr =
     (case foldl xlsx_cell_step (0, 0) cstr of (R, C) \<Rightarrow> CellAddress (R - 1) (C - 1))"

text \<open>
  The library's \<^verbatim>\<open>decode_range\<close>: with \<^verbatim>\<open>idx = range.indexOf(":")\<close>, a string without a
  colon is decoded as one cell for both ends, and any other string as the cells
  \<^verbatim>\<open>range.slice(0, idx)\<close> and \<^verbatim>\<open>range.slice(idx + 1)\<close>.
\<close>

definition xlsx_decode_range :: decoder where
  "xlsx_decode_range rg =
     (if CHR '':'' \<notin> set rg
      then Some (Range (xlsx_decode_cell rg) (xlsx_decode_cell rg))
      else Some (Range (xlsx_decode_cell (takeWhile (\<lambda>ch. ch \<noteq> CHR '':'') rg))
                       (xlsx_decode_cell (tl (dropWhile (\<lambda>ch. ch \<noteq> CHR '':'') rg)))))"

section \<open>The workbook parser's projections (excel.ts)\<close>

text \<open>
  \<^verbatim>\<open>normaliseHeaderRow\<close> reads two things from the worksheet through the library: the
  decoded \<^verbatim>\<open>!ref\<close> extent (\<open>None\<close> when the sheet declares none) and the rows that
  \<^verbatim>\<open>sheet_to_json\<close> returns. Both are arguments here.
\<close>

definition normaliseHeaderRow :: "range_t option \<Rightarrow> matrix_t \<Rightarrow> string list" where
  "normaliseHeaderRow rg headerRows =
     (let width = map_option (\<lambda>d. addr_c (range_e d) - addr_c (range_s d) + 1) rg;
          firstRow = (case headerRows of [] \<Rightarrow> [] | h # _ \<Rightarrow> h);
          finalWidth = (case width of None \<Rightarrow> int (length firstRow) | Some w \<Rightarrow> w)
      in map (\<lambda>index.
           let raw = at_index firstRow index;
               v = (case raw of Str t \<Rightarrow> trim t
                    | Null \<Rightarrow> trim (js_String (Str []))
                    | Undefined \<Rightarrow> trim (js_String (Str []))
                    | _ \<Rightarrow> trim (js_String raw))
           in if length v > 0 then v else fallback_name index) [0..<nat finalWidth])"

definition buildCsv :: "string list \<Rightarrow> record_t list \<Rightarrow> string" where
  "buildCsv cols rws =
     (let header = join '','' (map (\<lambda>column. serialiseValue (Str column)) cols);
          dataRows = map (\<lambda>row. join '','' (map (\<lambda>column. serialiseValue (field row column)) cols)) rws
      in join [CHR 0x0A] (header # dataRows))"

section \<open>Table names and the table sync (App.tsx, duckdb.ts)\<close>

text \<open>\<^verbatim>\<open>fileName.replace(/\.[^/.]+$/, "")\<close>: the text after the last dot is cut off, with the
  dot, when it is not empty and holds no slash.\<close>

definition strip_extension :: "string \<Rightarrow> string" where
  "strip_extension t =
     (let suffix = rev (takeWhile (\<lambda>ch. ch \<noteq> CHR ''.'') (rev t))
      in if length suffix < length t \<and> suffix \<noteq> [] \<and> CHR ''/'' \<notin> set suffix
         then take (length t - length suffix - 1) t else t)"

text \<open>\<^verbatim>\<open>toLowerCase()\<close> on the code units below 256.\<close>

definition toLowerCase :: "string \<Rightarrow> string" where
  "toLowerCase t =
     map (\<lambda>ch. let k = (of_char ch :: nat)
               in if (65 \<le> k \<and> k \<le> 90) \<or> (192 \<le> k \<and> k \<le> 222 \<and> k \<noteq> 215)
                  then char_of (k + 32) else ch) t"

definition is_alnum :: "char \<Rightarrow> bool" where
  "is_alnum ch = (let k = (of_char ch :: nat) in (97 \<le> k \<and> k \<le> 122) \<or> (48 \<le> k \<and> k \<le> 57))"

text \<open>\<^verbatim>\<open>replace(/[^a-z0-9]+/g, "_")\<close>.\<close>

function collapse_runs :: "string \<Rightarrow> string" where
  "collapse_runs [] = []"
| "collapse_runs (ch # t) =
     (if is_alnum ch then ch # collapse_runs t
      else CHR ''_'' # collapse_runs (dropWhile (\<lambda>c. \<not> is_alnum c) t))"
  by pat_completeness auto
termination
  by (relation "measure length") (auto simp: less_Suc_eq_le length_dropWhile_le)

text \<open>\<^verbatim>\<open>replace(/^_+|_+$/g, "")\<close>.\<close>

definition strip_underscores :: "string \<Rightarrow> string" where
  "strip_underscores t =
     rev (dropWhile (\<lambda>ch. ch = CHR ''_'') (rev (dropWhile (\<lambda>ch. ch = CHR ''_'') t)))"

definition normaliseTableName :: "string \<Rightarrow> string \<Rightarrow> nat \<Rightarrow> string" where
  "normaliseTableName fName sheetName index =
     (let positional = ''sheet_'' @ string_of_nat (index + 1);
          baseName = strip_underscores (collapse_runs (toLowerCase
                       (strip_extension fName @ ''_'' @ (if sheetName = [] then positional else sheetName))))
      in if length baseName > 0 then baseName else positional)"

text \<open>
  The analytical engine is a collaborator. Its state is the tables it holds, each with the
  CSV text it was created from; how its three calls end for a table name and a CSV text is
  an argument of the model.
\<close>

datatype engine_outcome = RegisterFileFails | DropFails | CreateFails | EngineOk

type_synonym engine = "string \<Rightarrow> string \<Rightarrow> engine_outcome"
type_synonym tables = "(string \<times> string) list"

datatype sync_error = EmptyCsv string | EngineError string

definition registerCsvAsTable :: "engine \<Rightarrow> string \<Rightarrow> string \<Rightarrow> tables \<Rightarrow> tables \<times> (sync_error + unit)" where
  "registerCsvAsTable eng tableName text tabs =
     (if text = [] \<or> length (trim text) = 0 then (tabs, Inl (EmptyCsv tableName))
      else (case eng tableName text of
              RegisterFileFails \<Rightarrow> (tabs, Inl (EngineError tableName))
            | DropFails \<Rightarrow> (tabs, Inl (EngineError tableName))
            | CreateFails \<Rightarrow> (AList.delete tableName tabs, Inl (EngineError tableName))
            | EngineOk \<Rightarrow> (AList.update tableName text (AList.delete tableName tabs), Inr ())))"

text \<open>A \<^verbatim>\<open>SheetTableMapping\<close>: sheet name to table name.\<close>

type_synonym mapping_t = "(string \<times> string) list"

text \<open>
  The \<^verbatim>\<open>for\<close> loop of \<^verbatim>\<open>syncTablesWithProcessed\<close> over \<^verbatim>\<open>processed.sheets.entries()\<close>,
  with the engine's tables and \<^verbatim>\<open>newMap\<close> as its state. A failed registration is thrown
  again and ends the loop. The drops of the previous mapping's tables are started without
  being awaited, so when they run is a matter of scheduling; they are not part of the
  loop.
\<close>

fun sync_loop :: "engine \<Rightarrow> string \<Rightarrow> (nat \<times> ProcessedSheet) list \<Rightarrow> tables \<Rightarrow> mapping_t
     \<Rightarrow> tables \<times> (sync_error + mapping_t)" where
  "sync_loop eng fName [] tabs newMap = (tabs, Inr newMap)"
| "sync_loop eng fName ((index, sheet) # rest) tabs newMap =
     (if length (rows sheet) = 0 \<or> length (columns sheet) = 0
      then sync_loop eng fName rest tabs newMap
      else let tableName = normaliseTableName fName (name sheet) index
           in (case registerCsvAsTable eng tableName (csv sheet) tabs of
                 (tabs', Inl err) \<Rightarrow> (tabs', Inl err)
               | (tabs', Inr u) \<Rightarrow>
                   sync_loop eng fName rest tabs' (AList.update (name sheet) tableName newMap)))"

definition syncTablesWithProcessed :: "engine \<Rightarrow> ProcessedWorkbook \<Rightarrow> tables
     \<Rightarrow> tables \<times> (sync_error + mapping_t)" where
  "syncTablesWithProcessed eng processed tabs =
     sync_loop eng (fileName processed) (enumerate 0 (sheets processed)) tabs []"

section \<open>The suggestion service (azure-openai.ts)\<close>






text \<open>A parsed JSON value; \<^verbatim>\<open>JSON.parse\<close> is an argument (\<open>None\<close>: it raises).\<close>

datatype json = JNull | JBool bool | JNum int | JStr string | JArr "json list"
  | JObj "(string \<times> json) list"










section \<open>Range notation decodes to the cells it was written from\<close>

lemma charCode_digit_char: "d < 10 \<Longrightarrow> charCode (digit_char d) = 48 + int d"
  by (simp add: charCode_def digit_char_def)

lemma digit_char_is_digit: "d < 10 \<Longrightarrow> is_digit (digit_char d)"
  by (simp add: is_digit_def charCode_digit_char)

lemma digit_char_not_upper: "d < 10 \<Longrightarrow> \<not> is_upper (digit_char d)"
  by (simp add: is_upper_def charCode_digit_char)

lemma string_of_nat_digits: "list_all is_digit (string_of_nat n)"
proof (induction n rule: string_of_nat.induct)
  case (1 n)
  then show ?case
    by (subst string_of_nat.simps) (simp add: digit_char_is_digit)
qed

lemma string_of_nat_nonempty: "string_of_nat n \<noteq> []"
  by (subst string_of_nat.simps) simp

lemma digits_value_snoc: "digits_value (ds @ [ch]) = 10 * digits_value ds + (charCode ch - 48)"
  by (simp add: digits_value_def)

lemma digits_value_string_of_nat: "digits_value (string_of_nat n) = int n"
proof (induction n rule: string_of_nat.induct)
  case (1 n)
  show ?case
  proof (cases "n < 10")
    case True
    then show ?thesis
      by (subst string_of_nat.simps) (simp add: digits_value_def charCode_digit_char)
  next
    case False
    with 1 have "digits_value (string_of_nat (n div 10)) = int (n div 10)" by simp
    with False show ?thesis
      by (subst string_of_nat.simps) (simp add: digits_value_snoc charCode_digit_char zdiv_int zmod_int)
  qed
qed

lemma charCode_letter: "0 \<le> k \<Longrightarrow> k < 26 \<Longrightarrow> charCode (char_of (65 + k)) = 65 + k"
proof -
  assume a: "0 \<le> k" "k < 26"
  have "(of_char (char_of (65 + k)) :: int) = (65 + k) mod 256" by (rule of_char_of)
  moreover have "int (of_char (char_of (65 + k)) :: nat) = (of_char (char_of (65 + k)) :: int)"
    by (rule of_nat_of_char)
  ultimately show ?thesis using a by (simp add: charCode_def)
qed

lemma col_loop_snoc:
  "0 \<le> c \<Longrightarrow> col_loop c acc = col_loop (c div 26 - 1) [] @ char_of (65 + c mod 26) # acc"
proof (induction "nat (c + 1)" arbitrary: c acc rule: less_induct)
  case less
  let ?c' = "c div 26 - 1" and ?ch = "char_of (65 + c mod 26)"
  have step: "col_loop c acc = col_loop ?c' (?ch # acc)"
    using less.prems by (subst col_loop.simps) simp
  show ?case
  proof (cases "0 \<le> ?c'")
    case False
    then have "col_loop ?c' xs = xs" for xs by (subst col_loop.simps) simp
    with step show ?thesis by simp
  next
    case True
    have m: "nat (?c' + 1) < nat (c + 1)" using less.prems by simp
    have "col_loop ?c' (?ch # acc) = col_loop (?c' div 26 - 1) [] @ char_of (65 + ?c' mod 26) # ?ch # acc"
      using less.hyps[OF m True] .
    moreover have "col_loop ?c' [] = col_loop (?c' div 26 - 1) [] @ [char_of (65 + ?c' mod 26)]"
      using less.hyps[OF m True] .
    ultimately show ?thesis using step by simp
  qed
qed

lemma col_loop_negative: "c < 0 \<Longrightarrow> col_loop c acc = acc"
  by (subst col_loop.simps) simp

lemma col_loop_letters: "0 \<le> c \<Longrightarrow> list_all is_upper (col_loop c []) \<and> col_loop c [] \<noteq> [] \<and> letters_value (col_loop c []) = c + 1"
proof (induction "nat (c + 1)" arbitrary: c rule: less_induct)
  case less
  let ?c' = "c div 26 - 1" and ?ch = "char_of (65 + c mod 26)"
  have eq: "col_loop c [] = col_loop ?c' [] @ [?ch]" using less.prems by (rule col_loop_snoc)
  have cc: "charCode ?ch = 65 + c mod 26" by (rule charCode_letter) simp_all
  have up: "is_upper ?ch" by (simp add: is_upper_def cc)
  show ?case
  proof (cases "0 \<le> ?c'")
    case False
    then have "col_loop ?c' [] = []" by (simp add: col_loop_negative)
    moreover from False less.prems have "c mod 26 = c" by simp
    ultimately show ?thesis using eq up cc by (simp add: letters_value_def)
  next
    case True
    have m: "nat (?c' + 1) < nat (c + 1)" using less.prems by simp
    from less.hyps[OF m True] have
      ih: "list_all is_upper (col_loop ?c' [])" "letters_value (col_loop ?c' []) = ?c' + 1" by simp_all
    have "letters_value (col_loop c []) = 26 * letters_value (col_loop ?c' []) + (charCode ?ch - 64)"
      unfolding eq by (simp add: letters_value_def)
    also have "\<dots> = c + 1" using ih(2) cc by simp
    finally show ?thesis using eq up ih(1) by simp
  qed
qed

lemma decode_cell_notation:
  assumes "0 \<le> rw" "0 \<le> cl"
  shows "decode_cell (cellToExcelNotation rw cl) = Some (CellAddress rw cl)"
proof -
  let ?ls = "col_loop cl []" and ?ds = "string_of_nat (nat (rw + 1))"
  have n: "cellToExcelNotation rw cl = ?ls @ ?ds"
    using assms by (simp add: cellToExcelNotation_def string_of_int_def)
  have L: "list_all is_upper ?ls" "?ls \<noteq> []" "letters_value ?ls = cl + 1"
    using col_loop_letters[OF assms(2)] by simp_all
  have D: "list_all is_digit ?ds" "?ds \<noteq> []" "digits_value ?ds = rw + 1"
    using assms by (simp_all add: string_of_nat_digits string_of_nat_nonempty digits_value_string_of_nat)
  have nu: "\<forall>ch \<in> set ?ds. \<not> is_upper ch"
    using D(1) by (auto simp: list_all_iff is_upper_def is_digit_def)
  from D(2) obtain d ds' where ds: "?ds = d # ds'" by (cases ?ds) auto
  with nu have "\<not> is_upper d" by simp
  with L(1) ds have tw: "takeWhile is_upper (?ls @ ?ds) = ?ls" and dw: "dropWhile is_upper (?ls @ ?ds) = ?ds"
    by (simp_all add: list_all_iff takeWhile_append2 dropWhile_append2)
  show ?thesis
    unfolding n decode_cell_def tw dw using L D assms by simp
qed

lemma notation_no_colon:
  assumes "0 \<le> rw" "0 \<le> cl"
  shows "CHR '':'' \<notin> set (cellToExcelNotation rw cl)"
proof -
  have c: "\<not> is_upper (CHR '':'')" "\<not> is_digit (CHR '':'')"
    by (simp_all add: is_upper_def is_digit_def charCode_def)
  have "list_all is_upper (col_loop cl [])" using col_loop_letters[OF assms(2)] by simp
  moreover have "list_all is_digit (string_of_nat (nat (rw + 1)))" by (rule string_of_nat_digits)
  ultimately show ?thesis
    using assms c by (auto simp: cellToExcelNotation_def string_of_int_def list_all_iff)
qed

lemma decode_range_notation:
  assumes "0 \<le> r0" "0 \<le> c0" "0 \<le> r1" "0 \<le> c1"
  shows "decode_range (cellToExcelNotation r0 c0 @ '':'' @ cellToExcelNotation r1 c1)
           = Some (Range (CellAddress r0 c0) (CellAddress r1 c1))"
proof -
  let ?a = "cellToExcelNotation r0 c0" and ?b = "cellToExcelNotation r1 c1"
  have nc: "\<forall>ch \<in> set ?a. ch \<noteq> CHR '':''" using notation_no_colon[OF assms(1,2)] by auto
  have tw: "takeWhile (\<lambda>ch. ch \<noteq> CHR '':'') (?a @ '':'' @ ?b) = ?a"
    using nc by (simp add: takeWhile_append2)
  have dw: "dropWhile (\<lambda>ch. ch \<noteq> CHR '':'') (?a @ '':'' @ ?b) = '':'' @ ?b"
    using nc by (simp add: dropWhile_append2)
  show ?thesis
    unfolding decode_range_def tw dw
    by (simp add: decode_cell_notation assms)
qed

lemma foldl_max_col:
  "foldl (\<lambda>acc row. max acc (int (length row) - 1)) (max a (int b - 1)) m
     = max a (int (foldl (\<lambda>mx row. max mx (length row)) b m) - 1)"
proof (induction m arbitrary: a b)
  case Nil
  show ?case by simp
next
  case (Cons x xs)
  have "max (max a (int b - 1)) (int (length x) - 1) = max a (int (max b (length x)) - 1)"
    by (simp add: max_def)
  then show ?case using Cons[of a "max b (length x)"] by simp
qed

lemma maxCol_eq:
  "foldl (\<lambda>acc row. max acc (int (length row) - 1)) 0 m = max 0 (int (max_row_width m) - 1)"
  using foldl_max_col[of 0 0 m] by (simp add: max_row_width_def)

lemma clamp_inside: "mn \<le> v \<Longrightarrow> v \<le> mx \<Longrightarrow> clamp v mn mx = v"
  by (simp add: clamp_def)

section \<open>Properties of the selection applier\<close>

text \<open>
  C1. A rectangle dragged between two cells inside the matrix (rows below
  \<open>length m\<close>, columns below the width of the widest row), written as a range by
  \<^verbatim>\<open>selectionToRange\<close> and read back by \<^verbatim>\<open>extractRangeMatrix\<close>, gives the sub-matrix of
  exactly the rows \<open>min ra rb .. max ra rb\<close> and the columns \<open>min ca cb .. max ca cb\<close>
  of the matrix, cells missing from a short row being null.
\<close>

theorem selection_round_trip:
  assumes "0 \<le> ra" "ra < int (length m)" "0 \<le> rb" "rb < int (length m)"
    and "0 \<le> ca" "ca < int (max_row_width m)" "0 \<le> cb" "cb < int (max_row_width m)"
  shows "extractRangeMatrix decode_range m
           (Some (selectionToRange \<lparr>start_pos = Some \<lparr>row = ra, col = ca\<rparr>,
                                    end_pos = Some \<lparr>row = rb, col = cb\<rparr>\<rparr>))
         = map (\<lambda>i. map (\<lambda>j. or_null (at_index (m ! nat i) (nat j))) [min ca cb..max ca cb])
             [min ra rb..max ra rb]"
proof -
  let ?r0 = "min ra rb" and ?r1 = "max ra rb" and ?c0 = "min ca cb" and ?c1 = "max ca cb"
  let ?rg = "cellToExcelNotation ?r0 ?c0 @ '':'' @ cellToExcelNotation ?r1 ?c1"
  have rg: "selectionToRange \<lparr>start_pos = Some \<lparr>row = ra, col = ca\<rparr>,
                              end_pos = Some \<lparr>row = rb, col = cb\<rparr>\<rparr> = ?rg"
    by (simp add: selectionToRange_def Let_def)
  have ne: "?rg \<noteq> []" by simp
  have dec: "decode_range ?rg = Some (Range (CellAddress ?r0 ?c0) (CellAddress ?r1 ?c1))"
    using assms by (intro decode_range_notation) simp_all
  have mr: "(if length m > 0 then int (length m) - 1 else 0) = int (length m) - 1"
    using assms by auto
  have mc: "foldl (\<lambda>acc row. max acc (int (length row) - 1)) 0 m = int (max_row_width m) - 1"
    using assms by (simp add: maxCol_eq)
  have cl: "clamp ?r0 0 (int (length m) - 1) = ?r0" "clamp ?r1 0 (int (length m) - 1) = ?r1"
      "clamp ?c0 0 (int (max_row_width m) - 1) = ?c0" "clamp ?c1 0 (int (max_row_width m) - 1) = ?c1"
    using assms by (simp_all add: clamp_inside)
  have ex: "extractRangeMatrix decode_range m (Some ?rg)
      = map (\<lambda>i. map (\<lambda>j. cell_at (row_at m i) j) [?c0..?c1]) [?r0..?r1]"
    unfolding extractRangeMatrix_def using ne dec
    by (simp only: option.case if_False Let_def mr mc cl range_t.sel cell_address.sel)
  have "map (\<lambda>i. map (\<lambda>j. cell_at (row_at m i) j) [?c0..?c1]) [?r0..?r1]
      = map (\<lambda>i. map (\<lambda>j. or_null (at_index (m ! nat i) (nat j))) [?c0..?c1]) [?r0..?r1]"
  proof (intro map_cong refl)
    fix i j assume "i \<in> set [?r0..?r1]" "j \<in> set [?c0..?c1]"
    with assms have "0 \<le> i" "nat i < length m" "0 \<le> j" by auto
    then show "cell_at (row_at m i) j = or_null (at_index (m ! nat i) (nat j))"
      by (simp add: cell_at_def row_at_def)
  qed
  with ex rg show ?thesis by simp
qed

theorem selection_round_trip_witness:
  "(0::int) \<le> 1 \<and> (1::int) < int (length [[Num 1, Num 2], [Num 3]]) \<and>
   (1::int) < int (max_row_width [[Num 1, Num 2], [Num 3]]) \<and>
   extractRangeMatrix decode_range [[Num 1, Num 2], [Num 3]]
     (Some (selectionToRange \<lparr>start_pos = Some \<lparr>row = 1, col = 1\<rparr>,
                              end_pos = Some \<lparr>row = 0, col = 0\<rparr>\<rparr>))
     = [[Num 1, Num 2], [Num 3, Null]]"
  using selection_round_trip [of 1 "[[Num 1, Num 2], [Num 3]]" 0 1 0]
  by (simp add: max_row_width_def at_index_def upto.simps)

text \<open>The library's decoder returns a range for every string, and the same range as the
  spec's decoder wherever that one succeeds; so the round trip of a dragged rectangle holds
  with the library's decoder as well.\<close>

lemma xlsx_decode_range_total: "\<exists>decoded. xlsx_decode_range rg = Some decoded"
  by (simp add: xlsx_decode_range_def)

lemma foldl_step_letters:
  "list_all is_upper ls \<Longrightarrow>
   foldl xlsx_cell_step (R, C) ls = (R, foldl (\<lambda>d ch. 26 * d + (charCode ch - 64)) C ls)"
  by (induction ls arbitrary: C) (auto simp: xlsx_cell_step_def is_upper_def Let_def)

lemma foldl_step_digits:
  "list_all is_digit ds \<Longrightarrow>
   foldl xlsx_cell_step (R, C) ds = (foldl (\<lambda>d ch. 10 * d + (charCode ch - 48)) R ds, C)"
  by (induction ds arbitrary: R) (auto simp: xlsx_cell_step_def is_digit_def Let_def)

lemma xlsx_decode_cell_agrees:
  assumes "decode_cell t = Some a"
  shows "xlsx_decode_cell t = a"
proof -
  let ?ls = "takeWhile is_upper t" and ?ds = "dropWhile is_upper t"
  from assms have d: "list_all is_digit ?ds"
    and a: "a = CellAddress (digits_value ?ds - 1) (letters_value ?ls - 1)"
    by (auto simp: decode_cell_def Let_def split: if_splits)
  have l: "list_all is_upper ?ls" by (simp add: list_all_iff) (meson set_takeWhileD)
  have "foldl xlsx_cell_step (0, 0) t = foldl xlsx_cell_step (0, 0) (?ls @ ?ds)" by simp
  also have "\<dots> = (digits_value ?ds, letters_value ?ls)"
    unfolding foldl_append foldl_step_letters[OF l] foldl_step_digits[OF d]
    by (simp add: digits_value_def letters_value_def)
  finally show ?thesis by (simp add: xlsx_decode_cell_def a)
qed

lemma xlsx_decode_range_agrees:
  assumes "decode_range t = Some rg"
  shows "xlsx_decode_range t = Some rg"
proof (cases "dropWhile (\<lambda>ch. ch \<noteq> CHR '':'') t")
  case Nil
  with assms show ?thesis by (simp add: decode_range_def)
next
  case (Cons x b')
  let ?a = "takeWhile (\<lambda>ch. ch \<noteq> CHR '':'') t"
  from assms Cons obtain s e where s: "decode_cell ?a = Some s" and e: "decode_cell b' = Some e"
    and rg: "rg = Range s e"
    by (simp add: decode_range_def split: option.splits)
  from Cons have "dropWhile (\<lambda>ch. ch \<noteq> CHR '':'') t \<noteq> []" by simp
  then have c: "CHR '':'' \<in> set t" by (auto simp: dropWhile_eq_Nil_conv)
  show ?thesis
    using c Cons by (simp add: xlsx_decode_range_def xlsx_decode_cell_agrees[OF s]
        xlsx_decode_cell_agrees[OF e] rg)
qed

lemma extractRangeMatrix_in_bounds:
  assumes "rg \<noteq> []" "dec rg = Some (Range (CellAddress r0 c0) (CellAddress r1 c1))"
    and "0 \<le> r0" "r0 < int (length m)" "0 \<le> r1" "r1 < int (length m)"
    and "0 \<le> c0" "c0 < int (max_row_width m)" "0 \<le> c1" "c1 < int (max_row_width m)"
  shows "extractRangeMatrix dec m (Some rg)
         = map (\<lambda>i. map (\<lambda>j. or_null (at_index (m ! nat i) (nat j))) [c0..c1]) [r0..r1]"
proof -
  have mr: "(if length m > 0 then int (length m) - 1 else 0) = int (length m) - 1"
    using assms by auto
  have mc: "foldl (\<lambda>acc row. max acc (int (length row) - 1)) 0 m = int (max_row_width m) - 1"
    using assms by (simp add: maxCol_eq)
  have cl: "clamp r0 0 (int (length m) - 1) = r0" "clamp r1 0 (int (length m) - 1) = r1"
      "clamp c0 0 (int (max_row_width m) - 1) = c0" "clamp c1 0 (int (max_row_width m) - 1) = c1"
    using assms by (simp_all add: clamp_inside)
  have ex: "extractRangeMatrix dec m (Some rg)
      = map (\<lambda>i. map (\<lambda>j. cell_at (row_at m i) j) [c0..c1]) [r0..r1]"
    unfolding extractRangeMatrix_def using assms(1,2)
    by (simp only: option.case if_False Let_def mr mc cl range_t.sel cell_address.sel)
  have "map (\<lambda>i. map (\<lambda>j. cell_at (row_at m i) j) [c0..c1]) [r0..r1]
      = map (\<lambda>i. map (\<lambda>j. or_null (at_index (m ! nat i) (nat j))) [c0..c1]) [r0..r1]"
  proof (intro map_cong refl)
    fix i j assume "i \<in> set [r0..r1]" "j \<in> set [c0..c1]"
    with assms have "0 \<le> i" "nat i < length m" "0 \<le> j" by auto
    then show "cell_at (row_at m i) j = or_null (at_index (m ! nat i) (nat j))"
      by (simp add: cell_at_def row_at_def)
  qed
  with ex show ?thesis by simp
qed

lemma selection_round_trip_xlsx:
  assumes "0 \<le> ra" "ra < int (length m)" "0 \<le> rb" "rb < int (length m)"
    and "0 \<le> ca" "ca < int (max_row_width m)" "0 \<le> cb" "cb < int (max_row_width m)"
  shows "extractRangeMatrix xlsx_decode_range m
           (Some (selectionToRange \<lparr>start_pos = Some \<lparr>row = ra, col = ca\<rparr>,
                                    end_pos = Some \<lparr>row = rb, col = cb\<rparr>\<rparr>))
         = map (\<lambda>i. map (\<lambda>j. or_null (at_index (m ! nat i) (nat j))) [min ca cb..max ca cb])
             [min ra rb..max ra rb]"
proof -
  let ?rg = "cellToExcelNotation (min ra rb) (min ca cb) @ '':'' @
             cellToExcelNotation (max ra rb) (max ca cb)"
  have rg: "selectionToRange \<lparr>start_pos = Some \<lparr>row = ra, col = ca\<rparr>,
                              end_pos = Some \<lparr>row = rb, col = cb\<rparr>\<rparr> = ?rg"
    by (simp add: selectionToRange_def Let_def)
  have ne: "?rg \<noteq> []" by simp
  have "decode_range ?rg = Some (Range (CellAddress (min ra rb) (min ca cb))
                                       (CellAddress (max ra rb) (max ca cb)))"
    using assms by (intro decode_range_notation) simp_all
  then have dec: "xlsx_decode_range ?rg = Some (Range (CellAddress (min ra rb) (min ca cb))
                                       (CellAddress (max ra rb) (max ca cb)))"
    by (rule xlsx_decode_range_agrees)
  show ?thesis
    unfolding rg using ne dec assms
    by (intro extractRangeMatrix_in_bounds
          [where dec = xlsx_decode_range and rg = ?rg and ?r0.0 = "min ra rb" and ?c0.0 = "min ca cb"
             and ?r1.0 = "max ra rb" and ?c1.0 = "max ca cb"]) simp_all
qed

text \<open>The \<^verbatim>\<open>catch\<close> of \<^verbatim>\<open>extractRangeMatrix\<close>: if the decoder raises, the whole matrix is
  returned.\<close>

lemma extractRangeMatrix_catch:
  "dec rg = None \<Longrightarrow> extractRangeMatrix dec m (Some rg) = m"
  by (simp add: extractRangeMatrix_def)

text \<open>
  C2. With the library's decoder a malformed range does not give the whole matrix. The
  string \<^verbatim>\<open>garbage\<close> has no digit and no letter \<^verbatim>\<open>A\<close>-\<^verbatim>\<open>Z\<close>, so it decodes, without an
  error, to row -1 and column -1 at both ends; the bounds are clamped to row 0 and column
  0, and \<^verbatim>\<open>extractRangeMatrix\<close> returns the single top-left cell of a two-by-two matrix.
  The \<^verbatim>\<open>catch\<close> that would return the whole matrix is not reached.
\<close>

theorem extractRangeMatrix_malformed_range:
  "xlsx_decode_range ''garbage'' = Some (Range (CellAddress (- 1) (- 1)) (CellAddress (- 1) (- 1))) \<and>
   extractRangeMatrix xlsx_decode_range [[Str ''a'', Num 1], [Str ''b'', Num 2]] (Some ''garbage'')
     = [[Str ''a'']]"
  by code_simp

text \<open>
  C6. The three-row sheet Name/Age, Ann/30, Bo/25 with an empty range and the first row
  as header gives the columns Name and Age and one record per data row.
\<close>

theorem processSheet_name_age_scenario:
  "columns (processSheet dec
       \<lparr>name = n, columns = cs, rows = rs, csv = t,
        matrix = [[Str ''Name'', Str ''Age''], [Str ''Ann'', Str ''30''], [Str ''Bo'', Str ''25'']]\<rparr>
       (Some \<lparr>range_opt = Some [], firstRowIsHeader = Some True\<rparr>))
     = [''Name'', ''Age''] \<and>
   rows (processSheet dec
       \<lparr>name = n, columns = cs, rows = rs, csv = t,
        matrix = [[Str ''Name'', Str ''Age''], [Str ''Ann'', Str ''30''], [Str ''Bo'', Str ''25'']]\<rparr>
       (Some \<lparr>range_opt = Some [], firstRowIsHeader = Some True\<rparr>))
     = [[(''Name'', Str ''Ann''), (''Age'', Str ''30'')],
        [(''Name'', Str ''Bo''), (''Age'', Str ''25'')]]"
  by (simp add: processSheet_def extractRangeMatrix_def trim_def is_space_def Let_def
      max_row_width_def buildColumnsFromHeaderRow_def matrixToRows_def at_index_def
      enumerate_eq_zip upt_rec rowsToCsv_def)

text \<open>
  C10. \<^verbatim>\<open>applySelection\<close> keeps the file name and returns one processed sheet per input
  sheet, in the input's order and under the input's names, whatever the configuration
  and whatever each sheet's content.
\<close>

theorem applySelection_keeps_sheets:
  "fileName (applySelection dec wb config) = fileName wb \<and>
   length (sheets (applySelection dec wb config)) = length (sheets wb) \<and>
   map name (sheets (applySelection dec wb config)) = map name (sheets wb)"
  by (simp add: applySelection_def processSheet_def Let_def empty_sheet_def comp_def)

section \<open>Column names\<close>

lemma fallback_name_nonempty: "fallback_name i \<noteq> []"
  by (simp add: fallback_name_def FALLBACK_COLUMN_PREFIX_def)

lemma trim_empty: "trim [] = []"
  by (simp add: trim_def)

lemma normaliseHeaderRow_as_build:
  "normaliseHeaderRow rg hs =
     buildColumnsFromHeaderRow (case hs of [] \<Rightarrow> [] | h # _ \<Rightarrow> h)
       (nat (case rg of None \<Rightarrow> int (length (case hs of [] \<Rightarrow> [] | h # _ \<Rightarrow> h))
             | Some d \<Rightarrow> addr_c (range_e d) - addr_c (range_s d) + 1))"
  unfolding normaliseHeaderRow_def buildColumnsFromHeaderRow_def Let_def
  by (intro map_cong) (auto simp: trim_empty split: cell.splits option.splits)

text \<open>
  C3, as stated, fails: two header cells with the same text give two columns with the
  same name, in the applier and in the parser alike. Only blank headers get the positional
  name.
\<close>

theorem duplicate_headers_stay:
  "buildColumnsFromHeaderRow [Str ''a'', Str ''a''] 2 = [''a'', ''a''] \<and>
   normaliseHeaderRow None [[Str ''a'', Str ''a'']] = [''a'', ''a''] \<and>
   \<not> distinct (buildColumnsFromHeaderRow [Str ''a'', Str ''a''] 2)"
  by (simp add: buildColumnsFromHeaderRow_def normaliseHeaderRow_def at_index_def trim_def
      is_space_def upt_rec Let_def)

text \<open>
  C3, amended. Both builders return one name per column position, none of them empty: the
  trimmed text of the header cell when the cell is there, is not null or undefined, and
  its text is not blank, and \<^verbatim>\<open>Column_<i+1>\<close> otherwise. The parser's
  \<^verbatim>\<open>normaliseHeaderRow\<close> computes the same list from the first row and the declared
  width.
\<close>

theorem header_columns_named:
  "length (buildColumnsFromHeaderRow hr w) = w \<and>
   (\<forall>i<w. buildColumnsFromHeaderRow hr w ! i \<noteq> [] \<and>
      buildColumnsFromHeaderRow hr w ! i =
        (if i < length hr \<and> hr ! i \<noteq> Null \<and> hr ! i \<noteq> Undefined \<and> trim (js_String (hr ! i)) \<noteq> []
         then trim (js_String (hr ! i)) else fallback_name i)) \<and>
   normaliseHeaderRow rg hs =
     buildColumnsFromHeaderRow (case hs of [] \<Rightarrow> [] | h # _ \<Rightarrow> h)
       (nat (case rg of None \<Rightarrow> int (length (case hs of [] \<Rightarrow> [] | h # _ \<Rightarrow> h))
             | Some d \<Rightarrow> addr_c (range_e d) - addr_c (range_s d) + 1))"
proof (intro conjI allI impI)
  show "length (buildColumnsFromHeaderRow hr w) = w"
    by (simp add: buildColumnsFromHeaderRow_def)
next
  fix i assume "i < w"
  then have nth: "buildColumnsFromHeaderRow hr w ! i =
      (let raw = at_index hr i;
           v = (case raw of Str t \<Rightarrow> trim t | Null \<Rightarrow> [] | Undefined \<Rightarrow> []
                | _ \<Rightarrow> trim (js_String raw))
       in if length v > 0 then v else fallback_name i)"
    by (simp add: buildColumnsFromHeaderRow_def Let_def cong: cell.case_cong)
  show "buildColumnsFromHeaderRow hr w ! i \<noteq> []"
    unfolding nth by (simp add: Let_def fallback_name_nonempty)
  show "buildColumnsFromHeaderRow hr w ! i =
        (if i < length hr \<and> hr ! i \<noteq> Null \<and> hr ! i \<noteq> Undefined \<and> trim (js_String (hr ! i)) \<noteq> []
         then trim (js_String (hr ! i)) else fallback_name i)"
    unfolding nth by (cases "hr ! i") (auto simp: Let_def at_index_def)
next
  show "normaliseHeaderRow rg hs =
     buildColumnsFromHeaderRow (case hs of [] \<Rightarrow> [] | h # _ \<Rightarrow> h)
       (nat (case rg of None \<Rightarrow> int (length (case hs of [] \<Rightarrow> [] | h # _ \<Rightarrow> h))
             | Some d \<Rightarrow> addr_c (range_e d) - addr_c (range_s d) + 1))"
    by (rule normaliseHeaderRow_as_build)
qed

theorem header_columns_named_witness:
  "(1::nat) < 4 \<and>
   buildColumnsFromHeaderRow [Str '' a '', Null, Str ''a''] 4 ! 1 \<noteq> [] \<and>
   buildColumnsFromHeaderRow [Str '' a '', Null, Str ''a''] 4 ! 1 = fallback_name 1 \<and>
   buildColumnsFromHeaderRow [Str '' a '', Null, Str ''a''] 4 = [''a'', ''Column_2'', ''a'', ''Column_4'']"
proof -
  have e: "buildColumnsFromHeaderRow [Str '' a '', Null, Str ''a''] 4 = [''a'', ''Column_2'', ''a'', ''Column_4'']"
    by code_simp
  have h: "(1::nat) < 4" by simp
  from header_columns_named [of "[Str '' a '', Null, Str ''a'']" 4]
  have "\<forall>i<4. buildColumnsFromHeaderRow [Str '' a '', Null, Str ''a''] 4 ! i \<noteq> [] \<and>
      buildColumnsFromHeaderRow [Str '' a '', Null, Str ''a''] 4 ! i =
        (if i < length [Str '' a '', Null, Str ''a''] \<and> [Str '' a '', Null, Str ''a''] ! i \<noteq> Null
            \<and> [Str '' a '', Null, Str ''a''] ! i \<noteq> Undefined
            \<and> trim (js_String ([Str '' a '', Null, Str ''a''] ! i)) \<noteq> []
         then trim (js_String ([Str '' a '', Null, Str ''a''] ! i)) else fallback_name i)"
    by blast
  from this [rule_format, OF h] e h show ?thesis by (simp add: fallback_name_nonempty)
qed

section \<open>CSV text\<close>

text \<open>
  C4. The CSV of a processed sheet leaves a header with a comma unquoted, while the
  parser's \<^verbatim>\<open>buildCsv\<close> quotes the same header: for the matrix \<^verbatim>\<open>[["a,b"],["1"]]\<close> the
  applier writes \<^verbatim>\<open>a,b\<close> as the header line and \<^verbatim>\<open>buildCsv\<close> writes \<^verbatim>\<open>"a,b"\<close>.
\<close>

theorem rowsToCsv_header_unquoted:
  "csv (processSheet dec \<lparr>name = n, columns = cs, rows = rs, csv = t,
          matrix = [[Str ''a,b''], [Str ''1'']]\<rparr> None) = ''a,b'' @ [CHR 0x0A] @ ''1'' \<and>
   buildCsv [''a,b''] [[(''a,b'', Str ''1'')]] = [CHR 0x22] @ ''a,b'' @ [CHR 0x22, CHR 0x0A] @ ''1''"
  by (simp add: processSheet_def extractRangeMatrix_def trim_def is_space_def Let_def
      max_row_width_def buildColumnsFromHeaderRow_def matrixToRows_def at_index_def
      enumerate_eq_zip upt_rec rowsToCsv_def buildCsv_def field_def needs_quotes_def double_quotes_def)

section \<open>Bounds of a processed sheet\<close>

text \<open>For a matrix with at least one row and at least one cell, the processed sheet has
  no more rows than the matrix and no more columns than its widest row.\<close>

lemma foldl_max_le:
  "a \<le> k \<Longrightarrow> \<forall>r \<in> set m. length r \<le> k \<Longrightarrow> foldl (\<lambda>mx r. max mx (length r)) a m \<le> (k::nat)"
  by (induction m arbitrary: a) auto

lemma max_row_width_le: "\<forall>r \<in> set m. length r \<le> k \<Longrightarrow> max_row_width m \<le> k"
  unfolding max_row_width_def by (rule foldl_max_le) simp_all

lemma clamp_bounds: "mn \<le> mx \<Longrightarrow> mn \<le> clamp v mn mx \<and> clamp v mn mx \<le> mx"
  by (simp add: clamp_def)

lemma extractRangeMatrix_within:
  assumes "m \<noteq> []" "max_row_width m \<ge> 1"
  shows "length (extractRangeMatrix dec m rng) \<le> length m \<and>
         max_row_width (extractRangeMatrix dec m rng) \<le> max_row_width m"
proof (cases "\<exists>rg decoded. rng = Some rg \<and> rg \<noteq> [] \<and> dec rg = Some decoded")
  case False
  then have "extractRangeMatrix dec m rng = m"
    by (auto simp: extractRangeMatrix_def split: option.splits)
  then show ?thesis by simp
next
  case True
  then obtain rg decoded where rg: "rng = Some rg" "rg \<noteq> []" "dec rg = Some decoded" by blast
  let ?maxRow = "int (length m) - 1" and ?maxCol = "int (max_row_width m) - 1"
  let ?sr = "clamp (addr_r (range_s decoded)) 0 ?maxRow"
  let ?er = "clamp (addr_r (range_e decoded)) 0 ?maxRow"
  let ?sc = "clamp (addr_c (range_s decoded)) 0 ?maxCol"
  let ?ec = "clamp (addr_c (range_e decoded)) 0 ?maxCol"
  have mr: "(if length m > 0 then int (length m) - 1 else 0) = ?maxRow" using assms by simp
  have mc: "foldl (\<lambda>acc row. max acc (int (length row) - 1)) 0 m = ?maxCol"
    using assms by (simp add: maxCol_eq)
  have ex: "extractRangeMatrix dec m rng
      = map (\<lambda>i. map (\<lambda>j. cell_at (row_at m i) j) [?sc..?ec]) [?sr..?er]"
    unfolding extractRangeMatrix_def using rg
    by (simp only: option.case if_False Let_def mr mc)
  have r0: "0 \<le> ?maxRow" using assms by (cases m) simp_all
  have c0: "0 \<le> ?maxCol" using assms by simp
  have "0 \<le> ?sr" "?er \<le> ?maxRow" using clamp_bounds[OF r0] by simp_all
  then have l: "length [?sr..?er] \<le> length m" by simp
  have "0 \<le> ?sc" "?ec \<le> ?maxCol" using clamp_bounds[OF c0] by simp_all
  then have w: "length [?sc..?ec] \<le> max_row_width m" by simp
  have "max_row_width (map (\<lambda>i. map (\<lambda>j. cell_at (row_at m i) j) [?sc..?ec]) [?sr..?er])
      \<le> max_row_width m"
    by (rule max_row_width_le) (use w in auto)
  with l show ?thesis unfolding ex by simp
qed

lemma processSheet_within_matrix:
  assumes "matrix sheet \<noteq> []" "max_row_width (matrix sheet) \<ge> 1"
  shows "length (rows (processSheet dec sheet selection)) \<le> length (matrix sheet) \<and>
         length (columns (processSheet dec sheet selection)) \<le> max_row_width (matrix sheet)"
proof -
  let ?t = "extractRangeMatrix dec (matrix sheet)
      (case (case selection of None \<Rightarrow> None | Some sel \<Rightarrow> map_option trim (range_opt sel)) of
         None \<Rightarrow> None | Some t \<Rightarrow> if t = [] then None else Some t)"
  have b: "length ?t \<le> length (matrix sheet)" "max_row_width ?t \<le> max_row_width (matrix sheet)"
    using extractRangeMatrix_within[OF assms] by simp_all
  have "length (rows (processSheet dec sheet selection)) \<le> length ?t \<and>
        length (columns (processSheet dec sheet selection)) \<le> max_row_width ?t"
    by (simp add: processSheet_def Let_def empty_sheet_def matrixToRows_def
        buildColumnsFromHeaderRow_def buildGeneratedColumns_def)
  with b show ?thesis by linarith
qed

text \<open>
  C5. An empty matrix with a decodable range gives a sheet with one column and one row:
  both bounds are clamped into \<open>[0, 0]\<close>, so the loops read the cell at row 0, column
  0, which is not there, and pad it with null.
\<close>

theorem processSheet_empty_matrix_with_range:
  "processSheet decode_range \<lparr>name = ''S'', columns = [], rows = [], csv = [], matrix = []\<rparr>
     (Some \<lparr>range_opt = Some ''A1:A1'', firstRowIsHeader = Some False\<rparr>)
   = \<lparr>name = ''S'', columns = [''Column_1''], rows = [[(''Column_1'', Null)]],
      csv = ''Column_1'' @ [CHR 0x0A]\<rparr>"
  by code_simp

section \<open>Sheets without a header row\<close>

text \<open>
  C7, as stated, fails on a matrix whose rows are all empty: it has one row, and the
  processed sheet has none, because a width of zero gives the empty sheet.
\<close>

theorem zero_width_rows_dropped:
  "length (matrix \<lparr>name = ''S'', columns = [], rows = [], csv = [], matrix = [[]]\<rparr>) = 1 \<and>
   rows (processSheet decode_range \<lparr>name = ''S'', columns = [], rows = [], csv = [], matrix = [[]]\<rparr>
     (Some \<lparr>range_opt = None, firstRowIsHeader = Some False\<rparr>)) = []"
  by (simp add: processSheet_def extractRangeMatrix_def max_row_width_def empty_sheet_def)


lemma string_of_nat_inj: "string_of_nat a = string_of_nat b \<Longrightarrow> a = b"
proof -
  assume "string_of_nat a = string_of_nat b"
  then have "digits_value (string_of_nat a) = digits_value (string_of_nat b)" by simp
  then show "a = b" by (simp add: digits_value_string_of_nat)
qed

lemma fallback_name_inj: "fallback_name a = fallback_name b \<Longrightarrow> a = b"
  by (auto simp: fallback_name_def dest: string_of_nat_inj)

lemma distinct_generated: "distinct (buildGeneratedColumns w)"
  unfolding buildGeneratedColumns_def
  by (simp add: distinct_map inj_on_def) (blast dest: fallback_name_inj)

lemma update_fresh: "k \<notin> fst ` set al \<Longrightarrow> AList.update k v al = al @ [(k, v)]"
  by (induction al) auto

lemma foldl_update_fresh:
  "distinct (map g ks) \<Longrightarrow> \<forall>k \<in> set ks. g k \<notin> fst ` set acc \<Longrightarrow>
   foldl (\<lambda>rec (i, c). AList.update c (h i) rec) acc (map (\<lambda>k. (k, g k)) ks)
     = acc @ map (\<lambda>k. (g k, h k)) ks"
proof (induction ks arbitrary: acc)
  case Nil
  show ?case by simp
next
  case (Cons k ks)
  have fresh: "g k \<notin> fst ` set acc" using Cons.prems(2) by simp
  have d: "distinct (map g ks)" and nk: "g k \<notin> g ` set ks" using Cons.prems(1) by simp_all
  have "\<forall>j \<in> set ks. g j \<notin> fst ` set (acc @ [(g k, h k)])"
    using Cons.prems(2) nk by (auto simp: image_iff)
  from Cons.IH[OF d this] show ?case
    by (simp add: update_fresh[OF fresh])
qed

lemma enumerate_generated:
  "enumerate 0 (buildGeneratedColumns w) = map (\<lambda>k. (k, fallback_name k)) [0..<w]"
  by (simp add: buildGeneratedColumns_def enumerate_eq_zip zip_map2 zip_same_conv_map)

lemma matrixToRows_generated:
  "matrixToRows m (buildGeneratedColumns w) False
     = map (\<lambda>r. map (\<lambda>k. (fallback_name k, or_null (at_index r k))) [0..<w]) m"
proof -
  have d: "distinct (map fallback_name [0..<w])"
    using distinct_generated[of w] by (simp add: buildGeneratedColumns_def)
  have "foldl (\<lambda>rec (index, c). AList.update c (or_null (at_index r index)) rec) []
          (map (\<lambda>k. (k, fallback_name k)) [0..<w])
        = map (\<lambda>k. (fallback_name k, or_null (at_index r k))) [0..<w]" for r
    using foldl_update_fresh[OF d, of "[]" "\<lambda>i. or_null (at_index r i)"] by simp
  then show ?thesis
    by (simp add: matrixToRows_def enumerate_generated)
qed

lemma max_row_width_Nil: "max_row_width [] = 0"
  by (simp add: max_row_width_def)

text \<open>
  C7, amended. With \<^verbatim>\<open>firstRowIsHeader = false\<close>, let the selected sub-matrix have \<open>N\<close>
  rows and widest row \<open>w\<close>. When \<open>w \<ge> 1\<close> the processed sheet has the columns
  \<^verbatim>\<open>Column_1\<close> .. \<^verbatim>\<open>Column_w\<close> and exactly \<open>N\<close> data rows, one per row of the sub-matrix
  and the first row among them, each holding the row's cells by position with null for a
  missing cell. When \<open>w = 0\<close> the processed sheet has no columns and no rows.
\<close>

theorem processSheet_without_header:
  assumes "firstRowIsHeader sel = Some False"
    and "target = extractRangeMatrix dec (matrix sheet)
           (case map_option trim (range_opt sel) of None \<Rightarrow> None
            | Some t \<Rightarrow> if t = [] then None else Some t)"
  shows "(max_row_width target \<ge> 1 \<longrightarrow>
            columns (processSheet dec sheet (Some sel))
              = map (\<lambda>k. ''Column_'' @ string_of_nat (k + 1)) [0..<max_row_width target] \<and>
            length (rows (processSheet dec sheet (Some sel))) = length target \<and>
            rows (processSheet dec sheet (Some sel))
              = map (\<lambda>r. map (\<lambda>k. (''Column_'' @ string_of_nat (k + 1), or_null (at_index r k)))
                           [0..<max_row_width target]) target) \<and>
         (max_row_width target = 0 \<longrightarrow>
            columns (processSheet dec sheet (Some sel)) = [] \<and>
            rows (processSheet dec sheet (Some sel)) = [])"
proof (intro conjI impI)
  assume w: "max_row_width target \<ge> 1"
  then have ne: "target \<noteq> []" by (auto simp: max_row_width_Nil)
  have fn: "fallback_name k = ''Column_'' @ string_of_nat (k + 1)" for k
    by (simp add: fallback_name_def FALLBACK_COLUMN_PREFIX_def)
  have out: "processSheet dec sheet (Some sel)
      = \<lparr>name = name sheet, columns = buildGeneratedColumns (max_row_width target),
         rows = matrixToRows target (buildGeneratedColumns (max_row_width target)) False,
         csv = rowsToCsv (buildGeneratedColumns (max_row_width target))
                 (matrixToRows target (buildGeneratedColumns (max_row_width target)) False)\<rparr>"
    using assms w ne by (simp add: processSheet_def Let_def)
  show "columns (processSheet dec sheet (Some sel))
      = map (\<lambda>k. ''Column_'' @ string_of_nat (k + 1)) [0..<max_row_width target]"
    unfolding out by (simp add: buildGeneratedColumns_def fn)
  show r: "rows (processSheet dec sheet (Some sel))
      = map (\<lambda>r. map (\<lambda>k. (''Column_'' @ string_of_nat (k + 1), or_null (at_index r k)))
                   [0..<max_row_width target]) target"
    unfolding out by (simp add: matrixToRows_generated fn)
  show "length (rows (processSheet dec sheet (Some sel))) = length target"
    unfolding r by simp
next
  assume w: "max_row_width target = 0"
  have "processSheet dec sheet (Some sel) = empty_sheet (name sheet)"
    using assms w by (simp add: processSheet_def Let_def)
  then show "columns (processSheet dec sheet (Some sel)) = []"
    and "rows (processSheet dec sheet (Some sel)) = []"
    by (simp_all add: empty_sheet_def)
qed

theorem processSheet_without_header_witness:
  "firstRowIsHeader \<lparr>range_opt = Some ''A2:B3'', firstRowIsHeader = Some False\<rparr> = Some False \<and>
   max_row_width [[Str ''Ann'', Str ''30''], [Str ''Bo'', Str ''25'']] \<ge> 1 \<and>
   columns (processSheet decode_range
       \<lparr>name = ''People'', columns = [], rows = [], csv = [],
        matrix = [[Str ''Name'', Str ''Age''], [Str ''Ann'', Str ''30''], [Str ''Bo'', Str ''25'']]\<rparr>
       (Some \<lparr>range_opt = Some ''A2:B3'', firstRowIsHeader = Some False\<rparr>))
     = [''Column_1'', ''Column_2''] \<and>
   length (rows (processSheet decode_range
       \<lparr>name = ''People'', columns = [], rows = [], csv = [],
        matrix = [[Str ''Name'', Str ''Age''], [Str ''Ann'', Str ''30''], [Str ''Bo'', Str ''25'']]\<rparr>
       (Some \<lparr>range_opt = Some ''A2:B3'', firstRowIsHeader = Some False\<rparr>))) = 2"
proof -
  let ?sel = "\<lparr>range_opt = Some ''A2:B3'', firstRowIsHeader = Some False\<rparr>"
  let ?sheet = "\<lparr>name = ''People'', columns = [], rows = [], csv = [],
        matrix = [[Str ''Name'', Str ''Age''], [Str ''Ann'', Str ''30''], [Str ''Bo'', Str ''25'']]\<rparr>"
  let ?target = "[[Str ''Ann'', Str ''30''], [Str ''Bo'', Str ''25'']]"
  have h1: "firstRowIsHeader ?sel = Some False" by simp
  have h2: "?target = extractRangeMatrix decode_range (matrix ?sheet)
           (case map_option trim (range_opt ?sel) of None \<Rightarrow> None
            | Some t \<Rightarrow> if t = [] then None else Some t)"
    by code_simp
  have h3: "max_row_width ?target \<ge> 1" by (simp add: max_row_width_def)
  have names: "map (\<lambda>k. ''Column_'' @ string_of_nat (k + 1)) [0..<max_row_width ?target]
      = [''Column_1'', ''Column_2'']" by code_simp
  from processSheet_without_header [OF h1 h2] h1 h3 names show ?thesis by simp
qed

section \<open>The table sync\<close>

lemma sync_loop_skips:
  "sync_loop eng fName es tabs newMap
     = sync_loop eng fName (filter (\<lambda>(index, sheet). rows sheet \<noteq> [] \<and> columns sheet \<noteq> []) es) tabs newMap"
proof (induction es arbitrary: tabs newMap)
  case Nil
  show ?case by simp
next
  case (Cons e es)
  obtain index sheet where e: "e = (index, sheet)" by (cases e)
  show ?case
    unfolding e using Cons.IH
    by (auto simp: Let_def split: prod.splits sum.splits)
qed

lemma registerCsvAsTable_keys:
  "fst ` set (fst (registerCsvAsTable eng tableName text tabs)) \<subseteq> insert tableName (fst ` set tabs)"
  by (auto simp: registerCsvAsTable_def dom_update AList.delete_eq split: engine_outcome.splits)

lemma sync_loop_keys:
  "sync_loop eng fName es tabs newMap = (tabs', Inr newMap') \<Longrightarrow>
   fst ` set newMap' = fst ` set newMap \<union>
     (\<lambda>p. name (snd p)) ` {p \<in> set es. rows (snd p) \<noteq> [] \<and> columns (snd p) \<noteq> []}"
proof (induction es arbitrary: tabs newMap)
  case Nil
  then show ?case by simp
next
  case (Cons e es)
  obtain index sheet where e: "e = (index, sheet)" by (cases e)
  show ?case
  proof (cases "rows sheet \<noteq> [] \<and> columns sheet \<noteq> []")
    case False
    with Cons.prems e have "sync_loop eng fName es tabs newMap = (tabs', Inr newMap')" by auto
    from Cons.IH[OF this] False e show ?thesis by auto
  next
    case True
    let ?tn = "normaliseTableName fName (name sheet) index"
    obtain tabs1 res where r: "registerCsvAsTable eng ?tn (csv sheet) tabs = (tabs1, res)"
      by (cases "registerCsvAsTable eng ?tn (csv sheet) tabs")
    with Cons.prems e True obtain u where "res = Inr u"
      by (cases res) (auto simp: Let_def)
    with Cons.prems e True r
    have "sync_loop eng fName es tabs1 (AList.update (name sheet) ?tn newMap) = (tabs', Inr newMap')"
      by (simp add: Let_def)
    from Cons.IH[OF this]
    have "fst ` set newMap' = insert (name sheet) (fst ` set newMap) \<union>
        (\<lambda>p. name (snd p)) ` {p \<in> set es. rows (snd p) \<noteq> [] \<and> columns (snd p) \<noteq> []}"
      by (simp add: dom_update)
    moreover have "{p \<in> set (e # es). rows (snd p) \<noteq> [] \<and> columns (snd p) \<noteq> []}
        = insert e {p \<in> set es. rows (snd p) \<noteq> [] \<and> columns (snd p) \<noteq> []}"
      using True e by auto
    ultimately show ?thesis using e by simp
  qed
qed

lemma sync_loop_tables:
  "fst ` set (fst (sync_loop eng fName es tabs newMap)) \<subseteq> fst ` set tabs \<union>
     (\<lambda>p. normaliseTableName fName (name (snd p)) (fst p)) `
        {p \<in> set es. rows (snd p) \<noteq> [] \<and> columns (snd p) \<noteq> []}"
proof (induction es arbitrary: tabs newMap)
  case Nil
  show ?case by simp
next
  case (Cons e es)
  obtain index sheet where e: "e = (index, sheet)" by (cases e)
  show ?case
  proof (cases "rows sheet \<noteq> [] \<and> columns sheet \<noteq> []")
    case False
    then have "sync_loop eng fName (e # es) tabs newMap = sync_loop eng fName es tabs newMap"
      using e by auto
    with Cons.IH[of tabs newMap] show ?thesis by auto
  next
    case True
    let ?tn = "normaliseTableName fName (name sheet) index"
    obtain tabs1 res where r: "registerCsvAsTable eng ?tn (csv sheet) tabs = (tabs1, res)"
      by (cases "registerCsvAsTable eng ?tn (csv sheet) tabs")
    have k1: "fst ` set tabs1 \<subseteq> insert ?tn (fst ` set tabs)"
      using registerCsvAsTable_keys[of eng ?tn "csv sheet" tabs] r by simp
    have S: "{p \<in> set (e # es). rows (snd p) \<noteq> [] \<and> columns (snd p) \<noteq> []}
        = insert e {p \<in> set es. rows (snd p) \<noteq> [] \<and> columns (snd p) \<noteq> []}"
      using True e by auto
    have tn: "normaliseTableName fName (name (snd e)) (fst e) = ?tn" using e by simp
    show ?thesis
    proof (cases res)
      case (Inl err)
      with r True e have eq: "fst (sync_loop eng fName (e # es) tabs newMap) = tabs1"
        by (simp add: Let_def)
      show ?thesis unfolding eq S image_insert tn using k1 by auto
    next
      case (Inr u)
      with r True e have eq: "sync_loop eng fName (e # es) tabs newMap
          = sync_loop eng fName es tabs1 (AList.update (name sheet) ?tn newMap)"
        by (simp add: Let_def)
      show ?thesis unfolding eq S image_insert tn
        using Cons.IH[of tabs1 "AList.update (name sheet) ?tn newMap"] k1 by auto
    qed
  qed
qed

lemma enumerate_image:
  "(\<lambda>p. f (snd p)) ` {p \<in> set (enumerate 0 xs). P (snd p)} = f ` {x \<in> set xs. P x}"
proof (intro equalityI subsetI)
  fix y assume "y \<in> (\<lambda>p. f (snd p)) ` {p \<in> set (enumerate 0 xs). P (snd p)}"
  then obtain p where p: "p \<in> set (enumerate 0 xs)" "P (snd p)" "y = f (snd p)" by auto
  from p(1) have "fst p < length xs" "xs ! fst p = snd p"
    by (simp_all add: in_set_enumerate_eq)
  then have "snd p \<in> set xs" using nth_mem by metis
  with p show "y \<in> f ` {x \<in> set xs. P x}" by auto
next
  fix y assume "y \<in> f ` {x \<in> set xs. P x}"
  then obtain x where x: "x \<in> set xs" "P x" "y = f x" by auto
  from x(1) obtain i where "i < length xs" "xs ! i = x" by (auto simp: in_set_conv_nth)
  then have "(i, x) \<in> set (enumerate 0 xs)" by (simp add: in_set_enumerate_eq)
  with x show "y \<in> (\<lambda>p. f (snd p)) ` {p \<in> set (enumerate 0 xs). P (snd p)}" by force
qed

text \<open>
  C8. The sync treats a workbook exactly as it treats the workbook's sheets that have at
  least one row and one column: a sheet with no rows or no columns is passed over, without
  a registration and without an entry. When the sync succeeds, the names in the mapping it
  returns are exactly the names of those sheets, so that, sheet names being distinct, the
  name of a sheet with no rows or no columns is not in the mapping; and every table the
  engine holds afterwards was there before or carries the table name of one of them.
\<close>

theorem sync_skips_empty_sheets:
  "syncTablesWithProcessed eng processed tabs
     = sync_loop eng (fileName processed)
         (filter (\<lambda>(index, sheet). rows sheet \<noteq> [] \<and> columns sheet \<noteq> [])
            (enumerate 0 (sheets processed))) tabs [] \<and>
   (\<forall>tabs' newMap. syncTablesWithProcessed eng processed tabs = (tabs', Inr newMap) \<longrightarrow>
      fst ` set newMap
        = name ` {sheet \<in> set (sheets processed). rows sheet \<noteq> [] \<and> columns sheet \<noteq> []} \<and>
      (distinct (map name (sheets processed)) \<longrightarrow>
         (\<forall>sheet \<in> set (sheets processed).
            rows sheet = [] \<or> columns sheet = [] \<longrightarrow> name sheet \<notin> fst ` set newMap))) \<and>
   fst ` set (fst (syncTablesWithProcessed eng processed tabs)) \<subseteq> fst ` set tabs \<union>
     (\<lambda>p. normaliseTableName (fileName processed) (name (snd p)) (fst p)) `
        {p \<in> set (enumerate 0 (sheets processed)). rows (snd p) \<noteq> [] \<and> columns (snd p) \<noteq> []}"
proof -
  have skip: "syncTablesWithProcessed eng processed tabs
     = sync_loop eng (fileName processed)
         (filter (\<lambda>(index, sheet). rows sheet \<noteq> [] \<and> columns sheet \<noteq> [])
            (enumerate 0 (sheets processed))) tabs []"
    unfolding syncTablesWithProcessed_def by (rule sync_loop_skips)
  have mapping: "fst ` set newMap
        = name ` {sheet \<in> set (sheets processed). rows sheet \<noteq> [] \<and> columns sheet \<noteq> []} \<and>
      (distinct (map name (sheets processed)) \<longrightarrow>
         (\<forall>sheet \<in> set (sheets processed).
            rows sheet = [] \<or> columns sheet = [] \<longrightarrow> name sheet \<notin> fst ` set newMap))"
    if ok: "syncTablesWithProcessed eng processed tabs = (tabs', Inr newMap)" for tabs' newMap
  proof -
    from ok have "sync_loop eng (fileName processed) (enumerate 0 (sheets processed)) tabs []
        = (tabs', Inr newMap)"
      by (simp add: syncTablesWithProcessed_def)
    from sync_loop_keys[OF this]
    have keys: "fst ` set newMap
        = name ` {sheet \<in> set (sheets processed). rows sheet \<noteq> [] \<and> columns sheet \<noteq> []}"
      using enumerate_image[where f = name and xs = "sheets processed"
          and P = "\<lambda>sheet. rows sheet \<noteq> [] \<and> columns sheet \<noteq> []"]
      by simp
    have "name sheet \<notin> fst ` set newMap"
      if d: "distinct (map name (sheets processed))"
        and s: "sheet \<in> set (sheets processed)" "rows sheet = [] \<or> columns sheet = []" for sheet
    proof
      assume "name sheet \<in> fst ` set newMap"
      with keys obtain other where o: "other \<in> set (sheets processed)" "rows other \<noteq> []"
          "columns other \<noteq> []" "name other = name sheet" by auto
      from d have "inj_on name (set (sheets processed))" by (simp add: distinct_map)
      with o(1,4) s(1) have "other = sheet" by (auto dest: inj_onD)
      with o s(2) show False by auto
    qed
    with keys show ?thesis by blast
  qed
  have engine: "fst ` set (fst (syncTablesWithProcessed eng processed tabs)) \<subseteq> fst ` set tabs \<union>
     (\<lambda>p. normaliseTableName (fileName processed) (name (snd p)) (fst p)) `
        {p \<in> set (enumerate 0 (sheets processed)). rows (snd p) \<noteq> [] \<and> columns (snd p) \<noteq> []}"
    using sync_loop_tables[of eng "fileName processed" "enumerate 0 (sheets processed)" tabs "[]"]
    unfolding syncTablesWithProcessed_def by simp
  show ?thesis
  proof (intro conjI allI impI)
    show "syncTablesWithProcessed eng processed tabs
     = sync_loop eng (fileName processed)
         (filter (\<lambda>(index, sheet). rows sheet \<noteq> [] \<and> columns sheet \<noteq> [])
            (enumerate 0 (sheets processed))) tabs []"
      by (rule skip)
  qed (use mapping engine in blast)+
qed

theorem sync_skips_empty_sheets_witness:
  "syncTablesWithProcessed (\<lambda>tableName text. EngineOk)
     \<lparr>fileName = ''Book.xlsx'', sheets =
        [\<lparr>name = ''Empty'', columns = [''a''], rows = [], csv = ''a''\<rparr>,
         \<lparr>name = ''Data'', columns = [''a''], rows = [[(''a'', Num 1)]],
          csv = ''a'' @ [CHR 0x0A] @ ''1''\<rparr>]\<rparr> []
     = ([(''book_data'', ''a'' @ [CHR 0x0A] @ ''1'')], Inr [(''Data'', ''book_data'')]) \<and>
   name ` {sheet \<in> set [\<lparr>name = ''Empty'', columns = [''a''], rows = [], csv = ''a''\<rparr>,
         \<lparr>name = ''Data'', columns = [''a''], rows = [[(''a'', Num 1)]],
          csv = ''a'' @ [CHR 0x0A] @ ''1''\<rparr>]. rows sheet \<noteq> [] \<and> columns sheet \<noteq> []}
     = {''Data''}"
proof -
  let ?wb = "\<lparr>fileName = ''Book.xlsx'', sheets =
        [\<lparr>name = ''Empty'', columns = [''a''], rows = [], csv = ''a''\<rparr>,
         \<lparr>name = ''Data'', columns = [''a''], rows = [[(''a'', Num 1)]],
          csv = ''a'' @ [CHR 0x0A] @ ''1''\<rparr>]\<rparr>"
  have ev: "syncTablesWithProcessed (\<lambda>tableName text. EngineOk) ?wb []
      = ([(''book_data'', ''a'' @ [CHR 0x0A] @ ''1'')], Inr [(''Data'', ''book_data'')])"
    by code_simp
  from sync_skips_empty_sheets [of "\<lambda>tableName text. EngineOk" ?wb "[]"]
  have "\<forall>tabs' newMap. syncTablesWithProcessed (\<lambda>tableName text. EngineOk) ?wb [] = (tabs', Inr newMap) \<longrightarrow>
      fst ` set newMap = name ` {sheet \<in> set (sheets ?wb). rows sheet \<noteq> [] \<and> columns sheet \<noteq> []}"
    by blast
  from this [rule_format, OF ev] ev show ?thesis by simp
qed

section \<open>The suggestion service\<close>





end
